theory Spec2Isabelle
  imports Main "HOL-Library.Sublist"
begin

section \<open>mdtogo: markdown documentation to Go string variables\<close>

text \<open>
  A shallow embedding of \<^verbatim>\<open>cmd/mdtogo/main.go\<close>.  Go strings are byte sequences, so a
  string is a \<^typ>\<open>char list\<close> (a \<^typ>\<open>char\<close> is one byte).  The functions of the Go
  standard library that the program calls are embedded first, each after its Go source;
  then \<^verbatim>\<open>parse\<close>, \<^verbatim>\<open>doc.String\<close> and \<^verbatim>\<open>main\<close>.
\<close>

subsection \<open>Characters that cannot be written inside a string literal\<close>

definition bq :: char where "bq = CHR 0x60"
definition dq :: char where "dq = CHR 0x22"
definition tab :: char where "tab = CHR 0x09"
definition nl :: char where "nl = CHR 0x0A"
definition cr :: char where "cr = CHR 0x0D"

subsection \<open>Package strings\<close>

text \<open>\<^verbatim>\<open>strings.HasPrefix(s, p)\<close>.\<close>

definition HasPrefix :: "string \<Rightarrow> string \<Rightarrow> bool" where
  "HasPrefix s p = prefix p s"

text \<open>\<^verbatim>\<open>strings.Join(elems, sep)\<close>.\<close>

fun Join :: "string list \<Rightarrow> string \<Rightarrow> string" where
  "Join [] sep = []"
| "Join [x] sep = x"
| "Join (x # y # ys) sep = x @ sep @ Join (y # ys) sep"

text \<open>
  \<^verbatim>\<open>utf8.DecodeRuneInString\<close>, the width only: the number of bytes of the first rune of a
  non-empty string (1 for an ASCII byte and for an invalid encoding).
\<close>

definition contByte :: "nat \<Rightarrow> nat \<Rightarrow> char \<Rightarrow> bool" where
  "contByte lo hi c = (lo \<le> (of_char c :: nat) \<and> (of_char c :: nat) \<le> hi)"

definition runeWidth :: "string \<Rightarrow> nat" where
  "runeWidth s =
    (let b0 = (of_char (hd s) :: nat);
         sz = (if 0xC2 \<le> b0 \<and> b0 \<le> 0xDF then 2
               else if 0xE0 \<le> b0 \<and> b0 \<le> 0xEF then 3
               else if 0xF0 \<le> b0 \<and> b0 \<le> 0xF4 then 4 else 1);
         lo = (if b0 = 0xE0 then 0xA0 else if b0 = 0xF0 then 0x90 else 0x80);
         hi = (if b0 = 0xED then 0x9F else if b0 = 0xF4 then 0x8F else 0xBF)
     in if sz = 1 \<or> length s < sz then 1
        else if \<not> contByte lo hi (s ! 1) then 1
        else if sz = 2 then 2
        else if \<not> contByte 0x80 0xBF (s ! 2) then 1
        else if sz = 3 then 3
        else if \<not> contByte 0x80 0xBF (s ! 3) then 1
        else 4)"

function runes :: "string \<Rightarrow> string list" where
  "runes s = (if s = [] then [] else take (runeWidth s) s # runes (drop (runeWidth s) s))"
  by pat_completeness auto
termination
  by (relation "measure length") (simp_all add: runeWidth_def Let_def)

declare runes.simps [simp del]

text \<open>
  \<^verbatim>\<open>strings.ReplaceAll(s, old, new)\<close>, that is \<^verbatim>\<open>strings.Replace(s, old, new, -1)\<close>: the
  string is returned as it is when \<^verbatim>\<open>old == new\<close>; an empty \<^verbatim>\<open>old\<close> matches before every
  rune and at the end; otherwise the non-overlapping occurrences of \<^verbatim>\<open>old\<close> are replaced
  from left to right.
\<close>

function replaceFrom :: "string \<Rightarrow> string \<Rightarrow> string \<Rightarrow> string" where
  "replaceFrom old new [] = []"
| "replaceFrom old new (c # cs) =
    (if old \<noteq> [] \<and> prefix old (c # cs)
     then new @ replaceFrom old new (drop (length old) (c # cs))
     else c # replaceFrom old new cs)"
  by pat_completeness auto
termination
  by (relation "measure (\<lambda>(old, new, s). length s)") auto

definition ReplaceAll :: "string \<Rightarrow> string \<Rightarrow> string \<Rightarrow> string" where
  "ReplaceAll s old new =
    (if old = new then s
     else if old = [] then new @ concat (map (\<lambda>r. r @ new) (runes s))
     else replaceFrom old new s)"

text \<open>
  \<^verbatim>\<open>strings.TrimSpace\<close>: the leading and then the trailing runes that are white space
  (\<^verbatim>\<open>unicode.IsSpace\<close>) are cut off.  \<open>spaceSeqs\<close> lists the UTF-8 encodings of the
  white space runes: tab, line feed, vertical tab, form feed, carriage return, space,
  U+0085, U+00A0, U+1680, U+2000 to U+200A, U+2028, U+2029, U+202F, U+205F and U+3000.
\<close>

definition spaceSeqs :: "string list" where
  "spaceSeqs =
    [[CHR 0x09], [CHR 0x0A], [CHR 0x0B], [CHR 0x0C], [CHR 0x0D], [CHR 0x20],
     [CHR 0xC2, CHR 0x85], [CHR 0xC2, CHR 0xA0], [CHR 0xE1, CHR 0x9A, CHR 0x80],
     [CHR 0xE2, CHR 0x80, CHR 0x80], [CHR 0xE2, CHR 0x80, CHR 0x81],
     [CHR 0xE2, CHR 0x80, CHR 0x82], [CHR 0xE2, CHR 0x80, CHR 0x83],
     [CHR 0xE2, CHR 0x80, CHR 0x84], [CHR 0xE2, CHR 0x80, CHR 0x85],
     [CHR 0xE2, CHR 0x80, CHR 0x86], [CHR 0xE2, CHR 0x80, CHR 0x87],
     [CHR 0xE2, CHR 0x80, CHR 0x88], [CHR 0xE2, CHR 0x80, CHR 0x89],
     [CHR 0xE2, CHR 0x80, CHR 0x8A], [CHR 0xE2, CHR 0x80, CHR 0xA8],
     [CHR 0xE2, CHR 0x80, CHR 0xA9], [CHR 0xE2, CHR 0x80, CHR 0xAF],
     [CHR 0xE2, CHR 0x81, CHR 0x9F], [CHR 0xE3, CHR 0x80, CHR 0x80]]"

definition leadSpace :: "string \<Rightarrow> string option" where
  "leadSpace s = find (\<lambda>e. prefix e s) spaceSeqs"

definition trailSpace :: "string \<Rightarrow> string option" where
  "trailSpace s = find (\<lambda>e. suffix e s) spaceSeqs"

function trimLeft :: "string \<Rightarrow> string" where
  "trimLeft s = (case leadSpace s of None \<Rightarrow> s | Some e \<Rightarrow> trimLeft (drop (length e) s))"
  by pat_completeness auto
termination
proof (relation "measure length")
  show "wf (measure length)" by simp
next
  fix s e assume "leadSpace s = Some e"
  then have "e \<in> set spaceSeqs" "prefix e s"
    unfolding leadSpace_def by (auto simp: find_Some_iff)
  moreover have "[] \<notin> set spaceSeqs" by (simp add: spaceSeqs_def)
  ultimately have "e \<noteq> []" "prefix e s" by auto
  then show "(drop (length e) s, s) \<in> measure length"
    by (auto simp: prefix_def)
qed

function trimRight :: "string \<Rightarrow> string" where
  "trimRight s =
    (case trailSpace s of None \<Rightarrow> s | Some e \<Rightarrow> trimRight (take (length s - length e) s))"
  by pat_completeness auto
termination
proof (relation "measure length")
  show "wf (measure length)" by simp
next
  fix s e assume "trailSpace s = Some e"
  then have "e \<in> set spaceSeqs" "suffix e s"
    unfolding trailSpace_def by (auto simp: find_Some_iff)
  moreover have "[] \<notin> set spaceSeqs" by (simp add: spaceSeqs_def)
  ultimately have "e \<noteq> []" "suffix e s" by auto
  then show "(take (length s - length e) s, s) \<in> measure length"
    by (auto simp: suffix_def)
qed

declare trimLeft.simps [simp del] trimRight.simps [simp del]

definition TrimSpace :: "string \<Rightarrow> string" where
  "TrimSpace s = trimRight (trimLeft s)"

text \<open>
  \<^verbatim>\<open>strings.Title\<close>: every letter that follows a separator (and the first one) is mapped to
  title case.  For ASCII input \<^verbatim>\<open>isSeparator\<close> holds of every byte that is not a letter,
  a digit or an underscore, and \<^verbatim>\<open>unicode.ToTitle\<close> maps a lower-case letter to its
  upper-case letter and nothing else.  The result for a string with a byte outside ASCII
  depends on the Unicode tables, which are not part of this program: it is the
  parameter \<open>tu\<close>.
\<close>

definition isAscii :: "char \<Rightarrow> bool" where
  "isAscii c = ((of_char c :: nat) < 0x80)"

definition isLower :: "char \<Rightarrow> bool" where
  "isLower c = (0x61 \<le> (of_char c :: nat) \<and> (of_char c :: nat) \<le> 0x7A)"

definition isUpper :: "char \<Rightarrow> bool" where
  "isUpper c = (0x41 \<le> (of_char c :: nat) \<and> (of_char c :: nat) \<le> 0x5A)"

definition isDigit :: "char \<Rightarrow> bool" where
  "isDigit c = (0x30 \<le> (of_char c :: nat) \<and> (of_char c :: nat) \<le> 0x39)"

definition isSeparator :: "char \<Rightarrow> bool" where
  "isSeparator c = (\<not> (isDigit c \<or> isLower c \<or> isUpper c \<or> c = CHR ''_''))"

definition ToTitle :: "char \<Rightarrow> char" where
  "ToTitle c = (if isLower c then char_of ((of_char c :: nat) - 0x20) else c)"

fun titleAscii :: "char \<Rightarrow> string \<Rightarrow> string" where
  "titleAscii prev [] = []"
| "titleAscii prev (c # cs) = (if isSeparator prev then ToTitle c else c) # titleAscii c cs"

definition Title :: "(string \<Rightarrow> string) \<Rightarrow> string \<Rightarrow> string" where
  "Title tu s = (if list_all isAscii s then titleAscii (CHR '' '') s else tu s)"

subsection \<open>Package filepath (Unix: the separator is the slash)\<close>

text \<open>
  \<^verbatim>\<open>filepath.Ext\<close>: the suffix beginning at the last dot of the last element of the path,
  empty when that element has no dot.
\<close>

fun extFrom :: "string \<Rightarrow> string \<Rightarrow> string" where
  "extFrom acc [] = []"
| "extFrom acc (c # cs) =
    (if c = CHR ''/'' then []
     else if c = CHR ''.'' then c # acc
     else extFrom (c # acc) cs)"

definition Ext :: "string \<Rightarrow> string" where
  "Ext path = extFrom [] (rev path)"

text \<open>
  \<^verbatim>\<open>filepath.Base\<close>: the last element of the path, after the trailing slashes are removed;
  a dot for the empty path and a slash for a path of slashes only.
\<close>

definition Base :: "string \<Rightarrow> string" where
  "Base path =
    (if path = [] then ''.''
     else let p = rev (dropWhile (\<lambda>c. c = CHR ''/'') (rev path));
              e = rev (takeWhile (\<lambda>c. c \<noteq> CHR ''/'') (rev p))
          in if e = [] then ''/'' else e)"

subsection \<open>Package bufio: a line scanner over the document\<close>

text \<open>
  \<^verbatim>\<open>bufio.Scanner\<close> with the default split function \<^verbatim>\<open>ScanLines\<close>, reading from a buffer
  that holds the whole document.  \<open>rawLines\<close> cuts the input at every line feed; what
  follows the last line feed is a line only when it is not empty.  A token is a line
  without its trailing carriage return.  The buffer of the scanner grows up to
  \<^verbatim>\<open>MaxScanTokenSize\<close> bytes: a line of that many bytes or more stops the scan with
  \<^verbatim>\<open>ErrTooLong\<close>, and \<^verbatim>\<open>Err()\<close> reports it from then on.
\<close>

datatype error = ErrTooLong

definition MaxScanTokenSize :: nat where
  "MaxScanTokenSize = 64 * 1024"

fun rawLines :: "string \<Rightarrow> string \<Rightarrow> string list" where
  "rawLines cur [] = (if cur = [] then [] else [rev cur])"
| "rawLines cur (c # cs) =
    (if c = nl then rev cur # rawLines [] cs else rawLines (c # cur) cs)"

definition dropCR :: "string \<Rightarrow> string" where
  "dropCR l = (if l \<noteq> [] \<and> last l = cr then butlast l else l)"

definition scanAll :: "string \<Rightarrow> error + string list" where
  "scanAll v =
    (let ls = rawLines [] v
     in if list_ex (\<lambda>l. MaxScanTokenSize \<le> length l) ls then Inl ErrTooLong
        else Inr (map dropCR ls))"

subsection \<open>The document and its parser\<close>

record doc =
  Name :: string
  Short :: string
  Long :: string
  Examples :: string

text \<open>The local variables of \<^verbatim>\<open>parse\<close> that the loop over the lines updates.\<close>

record pstate =
  short :: string
  isLong :: bool
  isExample :: bool
  isIndent :: bool
  long :: "string list"
  examples :: "string list"

definition init :: pstate where
  "init = \<lparr>short = [], isLong = False, isExample = False, isIndent = False,
           long = [], examples = []\<rparr>"

text \<open>The replacement of a backtick: backtick, \<^verbatim>\<open> + \<close>, a quoted backtick, \<^verbatim>\<open> + \<close>, backtick.\<close>

definition bqEscape :: string where
  "bqEscape = [bq] @ '' + '' @ [dq, bq, dq] @ '' + '' @ [bq]"

text \<open>
  The body of the loop for a line that does not start the capture of the short
  description (lines 152 to 187): the section headings (not in full mode), the code
  fence, the escaping, the indentation and the appending.
\<close>

definition body :: "bool \<Rightarrow> string \<Rightarrow> pstate \<Rightarrow> pstate" where
  "body full line st =
    (if \<not> full \<and> HasPrefix line ''### Synopsis'' then st\<lparr>isLong := True, isExample := False\<rparr>
     else if \<not> full \<and> HasPrefix line ''### Examples'' then st\<lparr>isLong := False, isExample := True\<rparr>
     else if \<not> full \<and> HasPrefix line ''### '' then st\<lparr>isLong := False, isExample := False\<rparr>
     else if HasPrefix line [bq, bq, bq] then st\<lparr>isIndent := \<not> isIndent st\<rparr>
     else
       let l1 = ReplaceAll line [bq] bqEscape;
           l2 = (if isIndent st then tab # l1 else l1)
       in if isLong st \<or> full then st\<lparr>long := long st @ [l2]\<rparr>
          else if isExample st then st\<lparr>examples := examples st @ [l2]\<rparr>
          else st)"

text \<open>
  The inner loop (lines 142 to 148): the lines are read until one is not blank, which is
  the short description; the result is that line and the lines that are left.  At the end
  of the input the short description stays empty.
\<close>

fun scanShort :: "string list \<Rightarrow> string \<times> string list" where
  "scanShort [] = ([], [])"
| "scanShort (l # ls) = (if TrimSpace l = [] then scanShort ls else (l, ls))"

text \<open>The loop over the lines (lines 138 to 188).\<close>

function loop :: "bool \<Rightarrow> pstate \<Rightarrow> string list \<Rightarrow> pstate" where
  "loop full st [] = st"
| "loop full st (line # rest) =
    (if HasPrefix line ''## '' \<and> short st = []
     then loop full (st\<lparr>short := fst (scanShort rest)\<rparr>) (snd (scanShort rest))
     else loop full (body full line st) rest)"
  by pat_completeness auto
termination
proof (relation "measure (\<lambda>(full, st, ls). length ls)")
  show "wf (measure (\<lambda>(full, st, ls). length ls))" by simp
next
  fix full :: bool and st :: pstate and line :: string and rest :: "string list"
  show "((full, st\<lparr>short := fst (scanShort rest)\<rparr>, snd (scanShort rest)), full, st, line # rest)
        \<in> measure (\<lambda>(full, st, ls). length ls)"
  proof -
    have "length (snd (scanShort rest)) \<le> length rest"
      by (induction rest) auto
    then show ?thesis by simp
  qed
next
  fix full :: bool and st :: pstate and line :: string and rest :: "string list"
  show "((full, body full line st, rest), full, st, line # rest)
        \<in> measure (\<lambda>(full, st, ls). length ls)"
    by simp
qed

text \<open>The name of the document (lines 127 to 129).\<close>

definition docName :: "(string \<Rightarrow> string) \<Rightarrow> string \<Rightarrow> string" where
  "docName tu name =
    ReplaceAll (Title tu (ReplaceAll name (Ext name) [])) ''-'' []"

text \<open>
  \<^verbatim>\<open>parse\<close>.  The scanner reads from memory, so the lines it returns depend on the
  document only: \<open>scanAll\<close> gives them all at once and the two loops take them from
  that list.  An error of the scanner ends the loop in which it happens and is kept
  until \<^verbatim>\<open>scanner.Err()\<close> is asked after the outer loop, where \<^verbatim>\<open>log.Fatal\<close> ends the
  process; so the result is the error whenever a line is too long, whatever the loops
  did with the lines before it.  The global \<^verbatim>\<open>full\<close> is an argument, and \<open>tu\<close> is the
  parameter of \<open>Title\<close>.
\<close>

definition parse :: "(string \<Rightarrow> string) \<Rightarrow> bool \<Rightarrow> string \<Rightarrow> string \<Rightarrow> error + doc" where
  "parse tu full name v =
    (case scanAll v of
       Inl e \<Rightarrow> Inl e
     | Inr ls \<Rightarrow>
         let st = loop full init ls
         in Inr \<lparr>Name = docName tu name, Short = short st,
                 Long = Join (long st) [nl], Examples = Join (examples st) [nl]\<rparr>)"

text \<open>\<^verbatim>\<open>doc.String\<close> (lines 209 to 226).\<close>

definition decl :: "string \<Rightarrow> string \<Rightarrow> string \<Rightarrow> string" where
  "decl n field text = ''var '' @ n @ field @ ''='' @ [bq] @ text @ [bq]"

definition parts :: "doc \<Rightarrow> string list" where
  "parts d =
    (let p0 = [];
         p1 = (if Short d \<noteq> [] then p0 @ [decl (Name d) ''Short'' (Short d)] else p0);
         p2 = (if Long d \<noteq> [] then p1 @ [decl (Name d) ''Long'' (Long d)] else p1);
         p3 = (if Examples d \<noteq> [] then p2 @ [decl (Name d) ''Examples'' (Examples d)] else p2)
     in p3)"

definition String :: "doc \<Rightarrow> string" where
  "String d = Join (parts d) [nl] @ [nl]"

subsection \<open>The program\<close>

text \<open>
  What \<^verbatim>\<open>main\<close> asks of the operating system: the names in a directory
  (\<^verbatim>\<open>os.ReadDir\<close>), the contents of a file (\<^verbatim>\<open>os.ReadFile\<close>), each with the text of the
  error when it fails; the error of writing a file, if any (\<^verbatim>\<open>os.WriteFile\<close>, after the
  directory was made when \<^verbatim>\<open>os.Stat\<close> did not find it, an error of \<^verbatim>\<open>os.Mkdir\<close> being
  ignored); and \<^verbatim>\<open>filepath.Join\<close>.
\<close>

record os =
  readDir :: "string \<Rightarrow> string + string list"
  readFile :: "string \<Rightarrow> string + string"
  writeFile :: "string \<Rightarrow> string \<Rightarrow> string option"
  joinPath :: "string \<Rightarrow> string \<Rightarrow> string"

text \<open>
  The ways the process ends with status 1: the usage message, an error of the operating
  system printed on the error stream, and \<^verbatim>\<open>log.Fatal\<close> of the scanner's error.  Otherwise
  the file was written: its path and contents.
\<close>

datatype failure = UsageError | IOError string | ScanError error

datatype outcome = Exit failure | Wrote string string

fun status :: "outcome \<Rightarrow> nat" where
  "status (Exit f) = 1"
| "status (Wrote p out) = 0"

definition usage :: string where
  "usage = ''Usage: mdtogo SOURCE_MD_DIR/ DEST_GO_DIR/'' @ [nl]"

text \<open>The text on the error stream (for \<^verbatim>\<open>log.Fatal\<close>, after the time stamp of the logger).\<close>

fun stderr :: "failure \<Rightarrow> string" where
  "stderr UsageError = usage"
| "stderr (IOError e) = e @ [nl]"
| "stderr (ScanError ErrTooLong) = ''bufio.Scanner: token too long'' @ [nl]"

text \<open>
  The loop over \<^verbatim>\<open>os.Args\<close> (lines 54 to 61) sets the globals \<^verbatim>\<open>full\<close> and
  \<^verbatim>\<open>licenseFile\<close>, which start as \<^verbatim>\<open>false\<close> and the empty string.
\<close>

definition flagStep :: "bool \<times> string \<Rightarrow> string \<Rightarrow> bool \<times> string" where
  "flagStep g a =
    (let full = (if a = ''--full=true'' then True else fst g);
         licenseFile = (if HasPrefix a ''--license='' then ReplaceAll a ''--license='' []
                        else snd g)
     in (full, licenseFile))"

definition flags :: "string list \<Rightarrow> bool \<times> string" where
  "flags args = foldl flagStep (False, []) args"

text \<open>The loop over the files of the source directory (lines 76 to 88).\<close>

fun loadDocs ::
  "(string \<Rightarrow> string) \<Rightarrow> os \<Rightarrow> bool \<Rightarrow> string \<Rightarrow> string list \<Rightarrow> failure + doc list" where
  "loadDocs tu sys full source [] = Inr []"
| "loadDocs tu sys full source (f # fs) =
    (if Ext f \<noteq> ''.md'' then loadDocs tu sys full source fs
     else case readFile sys (joinPath sys source f) of
            Inl e \<Rightarrow> Inl (IOError e)
          | Inr b \<Rightarrow>
              (case parse tu full f b of
                 Inl e \<Rightarrow> Inl (ScanError e)
               | Inr d \<Rightarrow>
                   (case loadDocs tu sys full source fs of
                      Inl e \<Rightarrow> Inl e
                    | Inr ds \<Rightarrow> Inr (d # ds))))"

text \<open>The license header (lines 90 to 104).\<close>

definition defaultLicense :: string where
  "defaultLicense =
    ''// Copyright 2019 The Kubernetes Authors.'' @ [nl] @
    ''// SPDX-License-Identifier: Apache-2.0''"

definition resolveLicense :: "os \<Rightarrow> string \<Rightarrow> failure + string" where
  "resolveLicense sys licenseFile =
    (if licenseFile = [] then Inr defaultLicense
     else if licenseFile = ''none'' then Inr []
     else case readFile sys licenseFile of
            Inl e \<Rightarrow> Inl (IOError e)
          | Inr b \<Rightarrow> Inr b)"

text \<open>The text of the generated file (lines 106 to 118).\<close>

definition marker :: "string \<Rightarrow> string" where
  "marker dest =
    [nl] @ ''// Code generated by '' @ [dq] @ ''mdtogo'' @ [dq] @ ''; DO NOT EDIT.'' @ [nl] @
    ''package '' @ Base dest @ [nl]"

definition render :: "string \<Rightarrow> string \<Rightarrow> doc list \<Rightarrow> string" where
  "render license dest docs = Join ([license, marker dest] @ map String docs) [nl]"

definition main :: "(string \<Rightarrow> string) \<Rightarrow> os \<Rightarrow> string list \<Rightarrow> outcome" where
  "main tu sys args =
    (let full = fst (flags args); licenseFile = snd (flags args)
     in if length args < 3 then Exit UsageError
        else
          let source = args ! 1; dest = args ! 2
          in case readDir sys source of
               Inl e \<Rightarrow> Exit (IOError e)
             | Inr files \<Rightarrow>
                 (case loadDocs tu sys full source files of
                    Inl f \<Rightarrow> Exit f
                  | Inr docs \<Rightarrow>
                      (case resolveLicense sys licenseFile of
                         Inl f \<Rightarrow> Exit f
                       | Inr license \<Rightarrow>
                           (case writeFile sys (joinPath sys dest ''docs.go'')
                                   (render license dest docs) of
                              Some e \<Rightarrow> Exit (IOError e)
                            | None \<Rightarrow>
                                Wrote (joinPath sys dest ''docs.go'')
                                  (render license dest docs)))))"

subsection \<open>Example inputs\<close>

text \<open>The document of the specification's example: eleven lines joined by line feeds.\<close>

definition editBody :: string where
  "editBody = Join [''## edit'', [], ''Edit a resource.'', [], ''### Synopsis'', [],
     ''Edit the named resource in place.'', [], ''### Examples'', [], ''kubectl edit pod/foo''] [nl]"

text \<open>
  An operating system for the examples: every directory lists \<open>names\<close>, every file
  holds \<open>content\<close>, the write succeeds and paths are joined with a slash.
\<close>

definition demoOs :: "string list \<Rightarrow> string \<Rightarrow> os" where
  "demoOs names content =
    \<lparr>readDir = (\<lambda>d. Inr names), readFile = (\<lambda>p. Inr content),
     writeFile = (\<lambda>p c. None), joinPath = (\<lambda>d f. d @ ''/'' @ f)\<rparr>"


text \<open>
  The text after \<open>--license=\<close> in the last argument that starts with it, if there is one.
\<close>

definition licenseFlag :: "string list \<Rightarrow> string option" where
  "licenseFlag args =
    (let fs = filter (\<lambda>a. HasPrefix a ''--license='') args
     in if fs = [] then None else Some (drop (length ''--license='') (last fs)))"

text \<open>
  The positional arguments in the words of the specification: the arguments after the
  program name that do not look like a flag.
\<close>

definition positionals :: "string list \<Rightarrow> string list" where
  "positionals args = filter (\<lambda>a. \<not> HasPrefix a ''--'') (tl args)"

text \<open>
  An operating system with an empty source directory where only the file \<open>xy\<close> can be
  read.
\<close>

definition failOs :: os where
  "failOs =
    \<lparr>readDir = (\<lambda>d. Inr []),
     readFile = (\<lambda>p. if p = ''xy'' then Inr ''// L'' else Inl ''no such file''),
     writeFile = (\<lambda>p c. None), joinPath = (\<lambda>d f. d @ ''/'' @ f)\<rparr>"

subsection \<open>Reference definitions for the parser\<close>

text \<open>The body of the loop applied to a list of lines, one after the other.\<close>

definition bodies :: "bool \<Rightarrow> pstate \<Rightarrow> string list \<Rightarrow> pstate" where
  "bodies full st ls = foldl (\<lambda>s l. body full l s) st ls"

text \<open>
  A line that starts the capture of the short description, a blank line, a code fence.
\<close>

definition isHeader :: "string \<Rightarrow> bool" where
  "isHeader l = HasPrefix l ''## ''"

definition isBlank :: "string \<Rightarrow> bool" where
  "isBlank l = (TrimSpace l = [])"

definition isFence :: "string \<Rightarrow> bool" where
  "isFence l = HasPrefix l [bq, bq, bq]"

text \<open>
  The short description read off the lines: the first line that is not blank after the
  first header line.  The lines that the loop body sees: all but the first header line,
  the blank lines after it and the line taken as short description.
\<close>

definition shortOf :: "string list \<Rightarrow> string" where
  "shortOf ls =
    (case dropWhile (\<lambda>l. \<not> isHeader l) ls of
       [] \<Rightarrow> []
     | h # r \<Rightarrow> (case dropWhile isBlank r of [] \<Rightarrow> [] | s # r' \<Rightarrow> s))"

definition mainLines :: "string list \<Rightarrow> string list" where
  "mainLines ls =
    takeWhile (\<lambda>l. \<not> isHeader l) ls @
    (case dropWhile (\<lambda>l. \<not> isHeader l) ls of
       [] \<Rightarrow> []
     | h # r \<Rightarrow> tl (dropWhile isBlank r))"

text \<open>
  The escaping character by character, and the lines collected in full mode: a fence
  line toggles the indentation and is dropped, every other line is escaped and gets a tab
  when the indentation is on.
\<close>

definition escape :: "string \<Rightarrow> string" where
  "escape l = concat (map (\<lambda>c. if c = bq then bqEscape else [c]) l)"

fun collectFull :: "bool \<Rightarrow> string list \<Rightarrow> string list" where
  "collectFull ind [] = []"
| "collectFull ind (l # ls) =
    (if isFence l then collectFull (\<not> ind) ls
     else (if ind then tab # escape l else escape l) # collectFull ind ls)"

text \<open>Documents for the examples.\<close>

definition fenceDoc :: string where
  "fenceDoc = Join [''## t'', ''s'', [bq, bq, bq], ''x''] [nl]"

definition fullDoc :: string where
  "fullDoc = Join [''intro'', ''## t'', [], ''s'', ''### Synopsis'', [bq, bq, bq] @ ''sh'',
     ''x'' @ [bq] @ ''y''] [nl]"

definition headingDoc :: string where
  "headingDoc = Join [''## t'', [], ''### Synopsis '' @ [bq] @ ''q'' @ [bq], ''more''] [nl]"

definition shortFenceDoc :: string where
  "shortFenceDoc = Join [''## t'', [bq, bq, bq], ''x''] [nl]"

definition backtickDoc :: string where
  "backtickDoc = Join [''## t'', ''a'' @ [bq] @ ''b'', ''### Synopsis'', ''a'' @ [bq] @ ''b''] [nl]"

subsection \<open>Reference definitions for the name\<close>

text \<open>
  The file name without its extension, and the capitalisation of every character that is
  the first one or follows a separating character.
\<close>

definition stripExt :: "string \<Rightarrow> string" where
  "stripExt name = take (length name - length (Ext name)) name"

definition capAfter :: "(char \<Rightarrow> bool) \<Rightarrow> string \<Rightarrow> string" where
  "capAfter sep s =
    map (\<lambda>i. if i = 0 \<or> sep (s ! (i - 1)) then ToTitle (s ! i) else s ! i) [0 ..< length s]"

text \<open>
  The name in the words of the specification: the extension stripped, the first letter
  of each word separated by white space capitalised, the hyphens removed.
\<close>

definition isWhite :: "char \<Rightarrow> bool" where
  "isWhite c = (c \<in> set [CHR 0x09, CHR 0x0A, CHR 0x0B, CHR 0x0C, CHR 0x0D, CHR 0x20])"

definition specName :: "string \<Rightarrow> string" where
  "specName name = filter (\<lambda>c. c \<noteq> CHR ''-'') (capAfter isWhite (stripExt name))"

subsection \<open>Reference definitions for the code fences\<close>

text \<open>
  The state machine of the specification: a mode (no section, the synopsis, the
  examples) and whether the line is inside a code block.  \<open>collect\<close> gives the lines
  that are appended, each with the field it goes to: a heading changes the mode (not in
  full mode, where every line goes to the long description), a fence line toggles the
  code block and gives no line, every other line is escaped and gets one tab inside a
  code block.  \<open>secOf\<close> reads the mode off the flags of the parser.
\<close>

datatype mode = Idle | CollectingLong | CollectingExamples

definition heading :: "string \<Rightarrow> mode" where
  "heading l =
    (if HasPrefix l ''### Synopsis'' then CollectingLong
     else if HasPrefix l ''### Examples'' then CollectingExamples
     else Idle)"

fun collect :: "bool \<Rightarrow> mode \<Rightarrow> bool \<Rightarrow> string list \<Rightarrow> (mode \<times> string) list" where
  "collect full sec inBlock [] = []"
| "collect full sec inBlock (l # ls) =
    (if \<not> full \<and> HasPrefix l ''### '' then collect full (heading l) inBlock ls
     else if isFence l then collect full sec (\<not> inBlock) ls
     else (if full then CollectingLong else sec, if inBlock then tab # escape l else escape l) #
          collect full sec inBlock ls)"

definition fieldLines :: "mode \<Rightarrow> (mode \<times> string) list \<Rightarrow> string list" where
  "fieldLines sec xs = map snd (filter (\<lambda>p. fst p = sec) xs)"

definition secOf :: "pstate \<Rightarrow> mode" where
  "secOf st = (if isLong st then CollectingLong else if isExample st then CollectingExamples else Idle)"

text \<open>A document with a closed fence in the synopsis and an open one in the examples.\<close>

definition fencedDoc :: string where
  "fencedDoc = Join [''## t'', ''s'', ''### Synopsis'', [bq, bq, bq] @ ''sh'', ''x'', [bq, bq, bq],
     ''y'', ''### Examples'', [bq, bq, bq], ''z''] [nl]"

section \<open>Evaluation lemmas\<close>

declare loop.simps [simp del]

lemma ToTitle_Char:
  "ToTitle (Char b0 b1 b2 b3 b4 b5 b6 b7) =
    (if isLower (Char b0 b1 b2 b3 b4 b5 b6 b7) then Char b0 b1 b2 b3 b4 False b6 b7
     else Char b0 b1 b2 b3 b4 b5 b6 b7)"
  apply (cases b0; cases b1; cases b2; cases b3; cases b4; cases b5; cases b6; cases b7)
  apply (simp_all add: ToTitle_def isLower_def char_of_eq_iff)
  done

lemma spaceSeqs_nonempty: "e \<in> set spaceSeqs \<Longrightarrow> e \<noteq> []"
  by (auto simp: spaceSeqs_def)

lemma leadSpace_None_iff: "leadSpace s = None \<longleftrightarrow> (\<forall>e\<in>set spaceSeqs. \<not> prefix e s)"
  by (auto simp add: leadSpace_def find_None_iff)

lemma trailSpace_SomeD: "trailSpace s = Some e \<Longrightarrow> e \<in> set spaceSeqs \<and> suffix e s"
  by (auto simp: trailSpace_def find_Some_iff)

lemma trimLeft_Nil: "trimLeft [] = []"
  by (subst trimLeft.simps) (simp add: leadSpace_def spaceSeqs_def)

lemma trimRight_Nil: "trimRight [] = []"
  by (subst trimRight.simps) (simp add: trailSpace_def spaceSeqs_def)

lemma TrimSpace_Nil: "TrimSpace [] = []"
  by (simp add: TrimSpace_def trimLeft_Nil trimRight_Nil)

lemma trimRight_empty_lead: "trimRight s = [] \<Longrightarrow> s = [] \<or> leadSpace s \<noteq> None"
proof (induction s rule: trimRight.induct)
  case (1 s)
  show ?case
  proof (cases "trailSpace s")
    case None
    with "1.prems" show ?thesis by (subst (asm) trimRight.simps) simp
  next
    case (Some e)
    then have e: "e \<in> set spaceSeqs" "suffix e s" using trailSpace_SomeD by blast+
    then obtain t where s: "s = t @ e" by (auto simp: suffix_def)
    from "1.prems" Some have "trimRight (take (length s - length e) s) = []"
      by (subst (asm) trimRight.simps) simp
    with "1.IH" [OF Some] have "take (length s - length e) s = [] \<or> leadSpace (take (length s - length e) s) \<noteq> None"
      by blast
    with s have "t = [] \<or> leadSpace t \<noteq> None" by simp
    then show ?thesis
    proof
      assume "t = []"
      with s e show ?thesis by (auto simp: leadSpace_None_iff)
    next
      assume "leadSpace t \<noteq> None"
      then obtain e' where "e' \<in> set spaceSeqs" "prefix e' t" by (auto simp: leadSpace_None_iff)
      then have "prefix e' s" using s by (auto simp: prefix_def)
      with \<open>e' \<in> set spaceSeqs\<close> show ?thesis by (auto simp: leadSpace_None_iff)
    qed
  qed
qed

lemma TrimSpace_nonblank: "leadSpace s = None \<Longrightarrow> s \<noteq> [] \<Longrightarrow> TrimSpace s \<noteq> []"
proof -
  assume a: "leadSpace s = None" "s \<noteq> []"
  then have "trimLeft s = s" by (subst trimLeft.simps) simp
  with a trimRight_empty_lead [of s] show ?thesis by (auto simp: TrimSpace_def)
qed

lemmas eval_scan = scanAll_def nl_def cr_def dropCR_def MaxScanTokenSize_def
lemmas eval_loop = init_def HasPrefix_def body_def ReplaceAll_def bq_def dq_def tab_def bqEscape_def TrimSpace_Nil
lemmas eval_name = docName_def Ext_def ReplaceAll_def Title_def isAscii_def isSeparator_def
  isLower_def isUpper_def isDigit_def ToTitle_Char

lemmas eval_parse = loop.simps eval_loop

section \<open>The example document (C1)\<close>

lemma edit_short_nonblank: "TrimSpace ''Edit a resource.'' \<noteq> []"
  by (rule TrimSpace_nonblank) (simp_all add: leadSpace_def spaceSeqs_def)

lemma edit_name: "docName tu ''edit.md'' = ''Edit''"
  by (simp add: eval_name)

lemma edit_lines:
  "scanAll editBody =
    Inr [''## edit'', [], ''Edit a resource.'', [], ''### Synopsis'', [],
         ''Edit the named resource in place.'', [], ''### Examples'', [],
         ''kubectl edit pod/foo'']"
  by (simp add: editBody_def eval_scan)

lemma edit_loop:
  "loop False init
     [''## edit'', [], ''Edit a resource.'', [], ''### Synopsis'', [],
      ''Edit the named resource in place.'', [], ''### Examples'', [],
      ''kubectl edit pod/foo''] =
    \<lparr>short = ''Edit a resource.'', isLong = False, isExample = True, isIndent = False,
     long = [[], ''Edit the named resource in place.'', []],
     examples = [[], ''kubectl edit pod/foo'']\<rparr>"
  by (simp add: eval_parse edit_short_nonblank)

text \<open>
  C1, as the code has it.  In default mode the example document gives the short
  description \<open>Edit a resource.\<close>, found by the scan that follows the line \<open>## edit\<close>
  and skips the blank line; the blank lines of the two sections are kept, so the long
  description is the synopsis line between two line feeds and the examples are the
  example line after one line feed.
\<close>

theorem parse_edit_default:
  "parse tu False ''edit.md'' editBody =
    Inr \<lparr>Name = ''Edit'', Short = ''Edit a resource.'',
          Long = [nl] @ ''Edit the named resource in place.'' @ [nl],
          Examples = [nl] @ ''kubectl edit pod/foo''\<rparr>"
  by (simp add: parse_def edit_lines edit_loop edit_name)

text \<open>
  C1 as stated fails: the long description of the example is not the bare synopsis line.
\<close>

theorem parse_edit_long_counterexample:
  "Long (projr (parse id False ''edit.md'' editBody)) \<noteq> ''Edit the named resource in place.''"
  by (simp add: parse_def edit_lines edit_loop edit_name nl_def)

section \<open>Rendering a document (C6)\<close>



section \<open>The program: helper lemmas\<close>

lemma Join_Cons: "Join (x # xs) sep = x @ concat (map ((@) sep) xs)"
  by (induction xs arbitrary: x) simp_all

lemma Join_append:
  "xs \<noteq> [] \<Longrightarrow> Join (xs @ ys) sep = Join xs sep @ concat (map ((@) sep) ys)"
  by (cases xs) (simp_all add: Join_Cons)

lemma loadDocs_append:
  "loadDocs tu sys full src (fs1 @ fs2) =
    (case loadDocs tu sys full src fs1 of
       Inl e \<Rightarrow> Inl e
     | Inr ds1 \<Rightarrow>
         (case loadDocs tu sys full src fs2 of
            Inl e \<Rightarrow> Inl e
          | Inr ds2 \<Rightarrow> Inr (ds1 @ ds2)))"
  by (induction fs1) (auto split: sum.splits)

lemma loadDocs_readDir_update:
  "loadDocs tu (sys\<lparr>readDir := r\<rparr>) full src fs = loadDocs tu sys full src fs"
  by (induction fs) (auto split: sum.splits)

lemma loadDocs_not_usage: "loadDocs tu sys full src fs \<noteq> Inl UsageError"
  by (induction fs) (auto split: sum.splits)

lemma resolveLicense_not_usage: "resolveLicense sys l \<noteq> Inl UsageError"
  by (auto simp: resolveLicense_def split: sum.splits)

lemma resolveLicense_readDir_update:
  "resolveLicense (sys\<lparr>readDir := r\<rparr>) l = resolveLicense sys l"
  by (simp add: resolveLicense_def)

lemma main_Wrote_iff:
  "main tu sys args = Wrote p out \<longleftrightarrow>
    3 \<le> length args \<and>
    (\<exists>files docs lic.
       readDir sys (args ! 1) = Inr files \<and>
       loadDocs tu sys (fst (flags args)) (args ! 1) files = Inr docs \<and>
       resolveLicense sys (snd (flags args)) = Inr lic \<and>
       writeFile sys (joinPath sys (args ! 2) ''docs.go'') (render lic (args ! 2) docs) = None \<and>
       p = joinPath sys (args ! 2) ''docs.go'' \<and>
       out = render lic (args ! 2) docs)"
  by (auto simp: main_def Let_def split: sum.splits option.splits)

lemma main_usage_iff: "main tu sys args = Exit UsageError \<longleftrightarrow> length args < 3"
  using loadDocs_not_usage resolveLicense_not_usage
  by (auto simp: main_def Let_def split: sum.splits option.splits)

lemma String_empty: "Short e = [] \<Longrightarrow> Long e = [] \<Longrightarrow> Examples e = [] \<Longrightarrow> String e = [nl]"
  by (simp add: String_def parts_def)

lemma render_split:
  "render lic dest (ds1 @ ds2) = render lic dest ds1 @ concat (map (\<lambda>d. nl # String d) ds2)"
proof -
  have "render lic dest (ds1 @ ds2) = Join (([lic, marker dest] @ map String ds1) @ map String ds2) [nl]"
    by (simp add: render_def)
  also have "\<dots> = Join ([lic, marker dest] @ map String ds1) [nl] @ concat (map ((@) [nl]) (map String ds2))"
    by (rule Join_append) simp
  finally show ?thesis by (simp add: render_def comp_def)
qed

section \<open>A document without text (C10)\<close>

text \<open>
  C10, as the code has it.  A document whose three fields are empty is rendered as one
  line feed.  When a run of the program has written its file, the run on the same
  directory with one more \<open>.md\<close> file of such a document writes the same text with two
  line feeds inserted: the separator of the join and the block of the document.
\<close>

theorem empty_doc_in_output:
  assumes dir: "readDir sys (args ! 1) = Inr (fs1 @ fs2)"
    and md: "Ext f = ''.md''"
    and rf: "readFile sys (joinPath sys (args ! 1) f) = Inr b"
    and doc: "parse tu (fst (flags args)) f b = Inr e"
    and empty: "Short e = []" "Long e = []" "Examples e = []"
    and without: "main tu sys args = Wrote p out"
    and wr: "\<forall>c. writeFile sys p c = None"
  shows "String e = [nl] \<and>
    (\<exists>a c. out = a @ c \<and>
       main tu (sys\<lparr>readDir := (readDir sys)(args ! 1 := Inr (fs1 @ f # fs2))\<rparr>) args =
         Wrote p (a @ [nl, nl] @ c))"
proof -
  let ?full = "fst (flags args)" and ?src = "args ! 1" and ?dest = "args ! 2"
  let ?sys' = "sys\<lparr>readDir := (readDir sys)(args ! 1 := Inr (fs1 @ f # fs2))\<rparr>"
  from without dir obtain docs lic where
    len: "3 \<le> length args"
    and ld: "loadDocs tu sys ?full ?src (fs1 @ fs2) = Inr docs"
    and rl: "resolveLicense sys (snd (flags args)) = Inr lic"
    and p: "p = joinPath sys ?dest ''docs.go''"
    and out: "out = render lic ?dest docs"
    unfolding main_Wrote_iff by auto
  from ld obtain ds1 ds2 where
    l1: "loadDocs tu sys ?full ?src fs1 = Inr ds1"
    and l2: "loadDocs tu sys ?full ?src fs2 = Inr ds2"
    and docs: "docs = ds1 @ ds2"
    by (auto simp: loadDocs_append split: sum.splits)
  have lf: "loadDocs tu sys ?full ?src (f # fs2) = Inr (e # ds2)"
    using md rf doc l2 by simp
  have ld': "loadDocs tu ?sys' ?full ?src (fs1 @ f # fs2) = Inr (ds1 @ e # ds2)"
    by (simp only: loadDocs_readDir_update loadDocs_append l1 lf sum.case)
  have se: "String e = [nl]" using empty by (rule String_empty)
  have rl': "resolveLicense ?sys' (snd (flags args)) = Inr lic"
    using rl by (simp only: resolveLicense_readDir_update)
  have r1: "out = render lic ?dest ds1 @ concat (map (\<lambda>d. nl # String d) ds2)"
    using out docs by (simp add: render_split)
  have r2: "render lic ?dest (ds1 @ e # ds2) =
      render lic ?dest ds1 @ [nl, nl] @ concat (map (\<lambda>d. nl # String d) ds2)"
    by (simp add: render_split se)
  have "main tu ?sys' args = Wrote p (render lic ?dest (ds1 @ e # ds2))"
    unfolding main_Wrote_iff using len ld' rl' p wr by simp
  with r1 r2 se show ?thesis by metis
qed


lemmas eval_main = main_def flags_def flagStep_def HasPrefix_def ReplaceAll_def demoOs_def
  failOs_def resolveLicense_def render_def

lemma parse_empty: "parse tu full n [] = Inr \<lparr>Name = docName tu n, Short = [], Long = [], Examples = []\<rparr>"
  by (simp add: parse_def scanAll_def loop.simps init_def)

theorem empty_doc_in_output_witness:
  "String \<lparr>Name = docName id ''a.md'', Short = [], Long = [], Examples = []\<rparr> = [nl] \<and>
   (\<exists>a c. render defaultLicense ''dst'' [] = a @ c \<and>
      main id ((demoOs [] [])\<lparr>readDir := (readDir (demoOs [] []))(''src'' := Inr [''a.md''])\<rparr>)
        [''mdtogo'', ''src'', ''dst''] = Wrote ''dst/docs.go'' (a @ [nl, nl] @ c))"
  using empty_doc_in_output [of "demoOs [] []" "[''mdtogo'', ''src'', ''dst'']" "[]" "[]" "''a.md''"
      "[]" id "\<lparr>Name = docName id ''a.md'', Short = [], Long = [], Examples = []\<rparr>"
      "''dst/docs.go''" "render defaultLicense ''dst'' []"]
  by (simp add: parse_empty Ext_def eval_main String_def parts_def)

text \<open>
  C10 as stated fails: with one empty document in the directory the file grows by two
  line feeds, not by one.
\<close>

theorem empty_doc_one_line_counterexample:
  "main id (demoOs [] []) [''mdtogo'', ''src'', ''dst''] =
     Wrote ''dst/docs.go'' (render defaultLicense ''dst'' []) \<and>
   main id (demoOs [''a.md''] []) [''mdtogo'', ''src'', ''dst''] =
     Wrote ''dst/docs.go'' (render defaultLicense ''dst'' [] @ [nl, nl]) \<and>
   main id (demoOs [''a.md''] []) [''mdtogo'', ''src'', ''dst''] \<noteq>
     Wrote ''dst/docs.go'' (render defaultLicense ''dst'' [] @ [nl])"
  by (simp add: parse_empty Ext_def eval_main String_def parts_def)

section \<open>The arguments (C3)\<close>

text \<open>
  C3, as the code has it.  The process ends with the usage message and status 1 exactly
  when the argument list, the program name included, has fewer than three elements,
  whatever the arguments look like.  Otherwise the source directory is the argument at
  index 1 and the destination directory the argument at index 2: the former is the
  directory that is read, the latter is where the file is written.
\<close>

theorem usage_exit:
  "(main tu sys args = Exit UsageError \<longleftrightarrow> length args < 3)
   \<and> status (Exit UsageError) = 1 \<and> stderr UsageError = usage
   \<and> (3 \<le> length args \<longrightarrow>
        (\<forall>e. readDir sys (args ! 1) = Inl e \<longrightarrow> main tu sys args = Exit (IOError e)))
   \<and> (\<forall>p out. main tu sys args = Wrote p out \<longrightarrow>
        p = joinPath sys (args ! 2) ''docs.go'' \<and>
        (\<exists>files. readDir sys (args ! 1) = Inr files) \<and>
        (\<exists>lic docs. out = render lic (args ! 2) docs))"
proof -
  have a: "3 \<le> length args \<longrightarrow>
        (\<forall>e. readDir sys (args ! 1) = Inl e \<longrightarrow> main tu sys args = Exit (IOError e))"
    by (simp add: main_def Let_def)
  have b: "\<forall>p out. main tu sys args = Wrote p out \<longrightarrow>
        p = joinPath sys (args ! 2) ''docs.go'' \<and>
        (\<exists>files. readDir sys (args ! 1) = Inr files) \<and>
        (\<exists>lic docs. out = render lic (args ! 2) docs)"
    unfolding main_Wrote_iff by blast
  show ?thesis using a b by (simp add: main_usage_iff)
qed

theorem usage_exit_witness:
  "main id (demoOs [] []) [''mdtogo'', ''src''] = Exit UsageError \<and>
   main id (demoOs [] []) [''mdtogo'', ''--full=true'', ''src''] \<noteq> Exit UsageError \<and>
   main id ((demoOs [] [])\<lparr>readDir := (\<lambda>d. Inl ''no such directory'')\<rparr>)
     [''mdtogo'', ''src'', ''dst''] = Exit (IOError ''no such directory'')"
  using usage_exit [of id "demoOs [] []" "[''mdtogo'', ''src'']"]
    usage_exit [of id "demoOs [] []" "[''mdtogo'', ''--full=true'', ''src'']"]
    usage_exit [of id "(demoOs [] [])\<lparr>readDir := (\<lambda>d. Inl ''no such directory'')\<rparr>"
      "[''mdtogo'', ''src'', ''dst'']"]
  by (simp add: demoOs_def)

text \<open>
  C3 as stated fails: with the flag before the only positional argument there is one
  positional argument and no usage error; the flag is taken as the source directory.
\<close>

theorem positional_flags_counterexample:
  "length (positionals [''mdtogo'', ''--full=true'', ''src'']) < 2 \<and>
   main id (demoOs [] []) [''mdtogo'', ''--full=true'', ''src''] =
     Wrote ''src/docs.go'' (render defaultLicense ''src'' [])"
  by (simp add: positionals_def eval_main)

section \<open>The license header (C8)\<close>

lemma flags_snoc: "flags (args @ [a]) = flagStep (flags args) a"
  by (simp add: flags_def)

lemma licenseFlag_snoc:
  "licenseFlag (args @ [a]) =
    (if HasPrefix a ''--license='' then Some (drop (length ''--license='') a) else licenseFlag args)"
  by (simp add: licenseFlag_def Let_def)

lemma snd_flags:
  "snd (flags args) =
    (case licenseFlag args of
       None \<Rightarrow> []
     | Some t \<Rightarrow> ReplaceAll (''--license='' @ t) ''--license='' [])"
proof (induction args rule: rev_induct)
  case Nil
  show ?case by (simp add: flags_def licenseFlag_def)
next
  case (snoc a args)
  show ?case
  proof (cases "HasPrefix a ''--license=''")
    case True
    then have "a = ''--license='' @ drop (length ''--license='') a"
      by (auto simp: HasPrefix_def prefix_def)
    then have "ReplaceAll a ''--license='' [] =
        ReplaceAll (''--license='' @ drop (length ''--license='') a) ''--license='' []"
      by simp
    with True show ?thesis
      by (simp only: flags_snoc licenseFlag_snoc flagStep_def Let_def snd_conv if_True option.case)
  next
    case False
    with snoc show ?thesis
      by (simp only: flags_snoc licenseFlag_snoc flagStep_def Let_def snd_conv if_False)
  qed
qed

lemma replaceFrom_no_occ: "\<not> sublist old s \<Longrightarrow> replaceFrom old new s = s"
  by (induction s) (auto simp: sublist_Cons_right)

lemma ReplaceAll_strip:
  assumes "p \<noteq> []" "\<not> sublist p t"
  shows "ReplaceAll (p @ t) p [] = t"
proof -
  obtain c cs where p: "p @ t = c # cs" using assms(1) by (cases p) auto
  from p have "prefix p (c # cs)" by (metis prefixI)
  then have "replaceFrom p [] (c # cs) = replaceFrom p [] (drop (length p) (c # cs))"
    using assms(1) by simp
  then have "replaceFrom p [] (p @ t) = replaceFrom p [] t"
    using p [symmetric] by simp
  with assms show ?thesis by (simp add: ReplaceAll_def replaceFrom_no_occ)
qed

lemma marker_prefix: "prefix ([nl] @ ''// Code generated by '') (marker dest)"
  by (simp add: marker_def)

lemma render_no_license:
  "prefix ([nl, nl] @ ''// Code generated by '') (render [] dest docs)"
proof -
  have "render [] dest docs = [nl] @ marker dest @ concat (map ((@) [nl]) (map String docs))"
    by (simp add: render_def Join_Cons)
  then show ?thesis using marker_prefix [of dest]
    by (auto simp: prefix_def)
qed

lemma ReplaceAll_flag_empty: "ReplaceAll (''--license='' @ []) ''--license='' [] = []"
  by (simp add: ReplaceAll_def)

lemma ReplaceAll_flag_none: "ReplaceAll (''--license='' @ ''none'') ''--license='' [] = ''none''"
  by (simp add: ReplaceAll_def)

lemma status_Exit_iff: "status r = 1 \<longleftrightarrow> (\<exists>f. r = Exit f)"
  by (cases r) simp_all

lemma main_license_fail:
  "resolveLicense sys (snd (flags args)) = Inl f \<Longrightarrow> status (main tu sys args) = 1"
  unfolding status_Exit_iff main_def Let_def
  by (simp split: sum.splits)

text \<open>
  C8, as the code has it.  The header is the built-in default when no argument starts with
  \<open>--license=\<close>, and also when the last such argument has nothing after the equals
  sign.  It is empty when that argument is \<open>--license=none\<close>, and then a written file
  starts with the two line feeds that precede the marker comment.  For any other
  non-empty path that does not itself contain \<open>--license=\<close> the header is the contents
  of the file at the path, and the process ends with status 1 when the file cannot be
  read.  A written file is rendered from the resolved header.
\<close>

theorem license_resolution:
  "(licenseFlag args = None \<or> licenseFlag args = Some [] \<longrightarrow>
      resolveLicense sys (snd (flags args)) = Inr defaultLicense)
   \<and> (licenseFlag args = Some ''none'' \<longrightarrow>
      resolveLicense sys (snd (flags args)) = Inr [] \<and>
      (\<forall>p out. main tu sys args = Wrote p out \<longrightarrow>
         prefix ([nl, nl] @ ''// Code generated by '') out))
   \<and> (licenseFlag args = Some path \<and> path \<noteq> [] \<and> path \<noteq> ''none'' \<and>
        \<not> sublist ''--license='' path \<longrightarrow>
      (\<forall>b. readFile sys path = Inr b \<longrightarrow>
         resolveLicense sys (snd (flags args)) = Inr b) \<and>
      (\<forall>e. readFile sys path = Inl e \<longrightarrow>
         resolveLicense sys (snd (flags args)) = Inl (IOError e) \<and>
         status (main tu sys args) = 1))
   \<and> (\<forall>p out. main tu sys args = Wrote p out \<longrightarrow>
        (\<exists>lic docs. resolveLicense sys (snd (flags args)) = Inr lic \<and>
           loadDocs tu sys (fst (flags args)) (args ! 1) (projr (readDir sys (args ! 1))) = Inr docs \<and>
           out = render lic (args ! 2) docs))"
proof -
  have dflt: "licenseFlag args = None \<or> licenseFlag args = Some [] \<longrightarrow>
      resolveLicense sys (snd (flags args)) = Inr defaultLicense"
  proof
    assume "licenseFlag args = None \<or> licenseFlag args = Some []"
    then have "snd (flags args) = []"
      using ReplaceAll_flag_empty by (auto simp only: snd_flags option.case)
    then show "resolveLicense sys (snd (flags args)) = Inr defaultLicense"
      by (simp add: resolveLicense_def)
  qed
  have out: "\<forall>p out. main tu sys args = Wrote p out \<longrightarrow>
        (\<exists>lic docs. resolveLicense sys (snd (flags args)) = Inr lic \<and>
           loadDocs tu sys (fst (flags args)) (args ! 1) (projr (readDir sys (args ! 1))) = Inr docs \<and>
           out = render lic (args ! 2) docs)"
    unfolding main_Wrote_iff by auto
  have none: "licenseFlag args = Some ''none'' \<longrightarrow>
      resolveLicense sys (snd (flags args)) = Inr [] \<and>
      (\<forall>p out. main tu sys args = Wrote p out \<longrightarrow>
         prefix ([nl, nl] @ ''// Code generated by '') out)"
  proof
    assume a: "licenseFlag args = Some ''none''"
    then have l: "snd (flags args) = ''none''"
      by (simp only: snd_flags option.case ReplaceAll_flag_none)
    then have r: "resolveLicense sys (snd (flags args)) = Inr []"
      by (simp add: resolveLicense_def)
    have "prefix ([nl, nl] @ ''// Code generated by '') out"
      if "main tu sys args = Wrote p out" for p out
    proof -
      from that out obtain lic docs where
        "resolveLicense sys (snd (flags args)) = Inr lic" "out = render lic (args ! 2) docs"
        by blast
      with r have "out = render [] (args ! 2) docs" by simp
      then show ?thesis by (simp only: render_no_license)
    qed
    with r show "resolveLicense sys (snd (flags args)) = Inr [] \<and>
      (\<forall>p out. main tu sys args = Wrote p out \<longrightarrow>
         prefix ([nl, nl] @ ''// Code generated by '') out)"
      by blast
  qed
  have path: "licenseFlag args = Some path \<and> path \<noteq> [] \<and> path \<noteq> ''none'' \<and>
        \<not> sublist ''--license='' path \<longrightarrow>
      (\<forall>b. readFile sys path = Inr b \<longrightarrow>
         resolveLicense sys (snd (flags args)) = Inr b) \<and>
      (\<forall>e. readFile sys path = Inl e \<longrightarrow>
         resolveLicense sys (snd (flags args)) = Inl (IOError e) \<and>
         status (main tu sys args) = 1)"
  proof
    assume a: "licenseFlag args = Some path \<and> path \<noteq> [] \<and> path \<noteq> ''none'' \<and>
        \<not> sublist ''--license='' path"
    then have "ReplaceAll (''--license='' @ path) ''--license='' [] = path"
      by (intro ReplaceAll_strip) simp_all
    with a have l: "snd (flags args) = path" by (simp only: snd_flags option.case)
    have r: "resolveLicense sys path =
        (case readFile sys path of Inl e \<Rightarrow> Inl (IOError e) | Inr b \<Rightarrow> Inr b)"
      using a by (simp add: resolveLicense_def)
    show "(\<forall>b. readFile sys path = Inr b \<longrightarrow>
         resolveLicense sys (snd (flags args)) = Inr b) \<and>
      (\<forall>e. readFile sys path = Inl e \<longrightarrow>
         resolveLicense sys (snd (flags args)) = Inl (IOError e) \<and>
         status (main tu sys args) = 1)"
      using main_license_fail [of sys args _ tu] by (simp add: l r)
  qed
  show ?thesis by (rule conjI [OF dflt conjI [OF none conjI [OF path out]]])
qed

theorem license_resolution_witness:
  "resolveLicense failOs (snd (flags [''mdtogo'', ''src'', ''dst''])) = Inr defaultLicense \<and>
   resolveLicense failOs (snd (flags [''mdtogo'', ''src'', ''dst'', ''--license=none''])) = Inr [] \<and>
   resolveLicense failOs (snd (flags [''mdtogo'', ''src'', ''dst'', ''--license=xy''])) = Inr ''// L'' \<and>
   status (main id failOs [''mdtogo'', ''src'', ''dst'', ''--license=LICENSE'']) = 1 \<and>
   prefix ([nl, nl] @ ''// Code generated by '')
     (render [] ''dst'' [])"
  using license_resolution [of "[''mdtogo'', ''src'', ''dst'']" failOs id "[]"]
    license_resolution [of "[''mdtogo'', ''src'', ''dst'', ''--license=none'']" failOs id "[]"]
    license_resolution [of "[''mdtogo'', ''src'', ''dst'', ''--license=xy'']" failOs id "''xy''"]
    license_resolution [of "[''mdtogo'', ''src'', ''dst'', ''--license=LICENSE'']" failOs id "''LICENSE''"]
  by (simp add: licenseFlag_def sublist_code eval_main)

text \<open>
  C8 as stated fails for two paths other than \<open>none\<close>: with the empty path and with the
  path \<open>x--license=y\<close> the file at the path cannot be read, and still the process writes
  its file, with the default header and with the contents of the file \<open>xy\<close>.
\<close>

theorem license_path_counterexample:
  "licenseFlag [''mdtogo'', ''src'', ''dst'', ''--license=''] = Some [] \<and>
   readFile failOs [] = Inl ''no such file'' \<and>
   main id failOs [''mdtogo'', ''src'', ''dst'', ''--license=''] =
     Wrote ''dst/docs.go'' (render defaultLicense ''dst'' []) \<and>
   licenseFlag [''mdtogo'', ''src'', ''dst'', ''--license=x--license=y''] = Some ''x--license=y'' \<and>
   readFile failOs ''x--license=y'' = Inl ''no such file'' \<and>
   main id failOs [''mdtogo'', ''src'', ''dst'', ''--license=x--license=y''] =
     Wrote ''dst/docs.go'' (render ''// L'' ''dst'' [])"
  by (simp add: licenseFlag_def eval_main)

section \<open>The loop over the lines\<close>

lemma bodies_Nil: "bodies full st [] = st"
  by (simp add: bodies_def)

lemma bodies_Cons: "bodies full st (l # ls) = bodies full (body full l st) ls"
  by (simp add: bodies_def)

lemma bodies_append: "bodies full st (xs @ ys) = bodies full (bodies full st xs) ys"
  by (simp add: bodies_def)

lemma short_body: "short (body full l st) = short st"
  by (simp add: body_def Let_def)

lemma short_bodies: "short (bodies full st ls) = short st"
  by (induction ls arbitrary: st) (simp_all add: bodies_Nil bodies_Cons short_body)

lemma body_short_update: "body full l (st\<lparr>short := s\<rparr>) = (body full l st)\<lparr>short := s\<rparr>"
  by (simp add: body_def Let_def)

lemma bodies_short_update: "bodies full (st\<lparr>short := s\<rparr>) ls = (bodies full st ls)\<lparr>short := s\<rparr>"
  by (induction ls arbitrary: st) (simp_all add: bodies_Nil bodies_Cons body_short_update)

lemma loop_captured: "short st \<noteq> [] \<Longrightarrow> loop full st ls = bodies full st ls"
  by (induction ls arbitrary: st) (simp_all add: loop.simps bodies_Nil bodies_Cons short_body)

lemma loop_before_header:
  "\<forall>l\<in>set pre. \<not> isHeader l \<Longrightarrow> loop full st (pre @ rest) = loop full (bodies full st pre) rest"
  by (induction pre arbitrary: st) (simp_all add: loop.simps bodies_Nil bodies_Cons isHeader_def)

lemma fst_scanShort:
  "fst (scanShort ls) = (case dropWhile isBlank ls of [] \<Rightarrow> [] | s # r \<Rightarrow> s)"
  by (induction ls) (simp_all add: isBlank_def)

lemma snd_scanShort: "snd (scanShort ls) = tl (dropWhile isBlank ls)"
  by (induction ls) (simp_all add: isBlank_def)

lemma scanShort_eof: "fst (scanShort ls) = [] \<Longrightarrow> snd (scanShort ls) = []"
  by (induction ls) (auto simp: TrimSpace_Nil)

lemma loop_header:
  assumes "isHeader h" "short st = []"
  shows "loop full st (h # ls) = (bodies full st (snd (scanShort ls)))\<lparr>short := fst (scanShort ls)\<rparr>"
proof -
  let ?s = "fst (scanShort ls)" and ?r = "snd (scanShort ls)"
  have step: "loop full st (h # ls) = loop full (st\<lparr>short := ?s\<rparr>) ?r"
    using assms by (simp add: loop.simps isHeader_def)
  show ?thesis
  proof (cases "?s = []")
    case True
    then have "?r = []" by (rule scanShort_eof)
    with step True show ?thesis by (simp add: loop.simps bodies_Nil)
  next
    case False
    then have "loop full (st\<lparr>short := ?s\<rparr>) ?r = bodies full (st\<lparr>short := ?s\<rparr>) ?r"
      by (intro loop_captured) simp
    with step show ?thesis by (simp add: bodies_short_update)
  qed
qed

lemma loop_init:
  "loop full init ls = (bodies full init (mainLines ls))\<lparr>short := shortOf ls\<rparr>"
proof -
  let ?pre = "takeWhile (\<lambda>l. \<not> isHeader l) ls" and ?post = "dropWhile (\<lambda>l. \<not> isHeader l) ls"
  have pre: "\<forall>l\<in>set ?pre. \<not> isHeader l" by (auto dest: set_takeWhileD)
  have "loop full init ls = loop full init (?pre @ ?post)" by simp
  also have "\<dots> = loop full (bodies full init ?pre) ?post"
    using pre by (rule loop_before_header)
  finally have split: "loop full init ls = loop full (bodies full init ?pre) ?post" .
  have s0: "short (bodies full init ?pre) = []" by (simp add: short_bodies init_def)
  show ?thesis
  proof (cases ?post)
    case Nil
    have e: "bodies full init ?pre = (bodies full init ?pre)\<lparr>short := []\<rparr>"
      using s0 by simp
    have m: "mainLines ls = ?pre" and s: "shortOf ls = []"
      by (simp_all only: mainLines_def shortOf_def Nil list.case append_Nil2)
    have "loop full init ls = bodies full init ?pre"
      by (simp only: split Nil loop.simps)
    with e show ?thesis by (simp only: m s)
  next
    case (Cons h r)
    then have "isHeader h" using hd_dropWhile [of "\<lambda>l. \<not> isHeader l" ls] by auto
    then have "loop full (bodies full init ?pre) (h # r) =
        (bodies full (bodies full init ?pre) (snd (scanShort r)))\<lparr>short := fst (scanShort r)\<rparr>"
      using s0 by (rule loop_header)
    moreover have "mainLines ls = ?pre @ snd (scanShort r)" and "shortOf ls = fst (scanShort r)"
      by (simp_all only: mainLines_def shortOf_def Cons list.case fst_scanShort snd_scanShort)
    ultimately show ?thesis
      by (simp only: split Cons bodies_append)
  qed
qed

lemma bqEscape_neq: "[bq] \<noteq> bqEscape"
  by (simp add: bqEscape_def)

lemma replaceFrom_bq: "replaceFrom [bq] new l = concat (map (\<lambda>c. if c = bq then new else [c]) l)"
  by (induction l) simp_all

lemma ReplaceAll_escape: "ReplaceAll l [bq] bqEscape = escape l"
  by (simp add: ReplaceAll_def bqEscape_neq replaceFrom_bq escape_def)

lemma body_full:
  "body True l st =
    (if isFence l then st\<lparr>isIndent := \<not> isIndent st\<rparr>
     else st\<lparr>long := long st @ [if isIndent st then tab # escape l else escape l]\<rparr>)"
  by (simp add: body_def isFence_def ReplaceAll_escape Let_def)

lemma bodies_full:
  "long (bodies True st ls) = long st @ collectFull (isIndent st) ls \<and>
   examples (bodies True st ls) = examples st"
  by (induction ls arbitrary: st) (simp_all add: bodies_Nil bodies_Cons body_full)

lemma TrimSpace_eq_Nil_iff: "leadSpace s = None \<Longrightarrow> (TrimSpace s = []) = (s = [])"
  using TrimSpace_nonblank [of s] TrimSpace_Nil by auto

lemmas eval_lines = shortOf_def mainLines_def isHeader_def isBlank_def isFence_def HasPrefix_def
  TrimSpace_Nil TrimSpace_eq_Nil_iff leadSpace_def spaceSeqs_def escape_def bq_def dq_def tab_def
  bqEscape_def

section \<open>Full mode (C2)\<close>

text \<open>
  C2, as the code has it.  In full mode the short description is the same as in default
  mode, the examples are empty, and the long description is the join by line feeds of the
  lines that the loop body sees (every line but the first header line, the blank lines
  skipped after it and the line captured as short description, so also the lines before
  the header), section headings included, where every fence line is dropped and every
  other line is escaped and prefixed with a tab inside a fence.
\<close>

theorem parse_full:
  assumes "scanAll v = Inr ls"
  shows "parse tu True name v =
      Inr \<lparr>Name = docName tu name, Short = shortOf ls,
            Long = Join (collectFull False (mainLines ls)) [nl], Examples = []\<rparr>
    \<and> (\<exists>d. parse tu False name v = Inr d \<and> Short d = shortOf ls)"
proof -
  have "long (bodies True init (mainLines ls)) = collectFull False (mainLines ls)"
    and "examples (bodies True init (mainLines ls)) = []"
    using bodies_full [of init "mainLines ls"] by (simp_all add: init_def)
  then show ?thesis using assms by (simp add: parse_def loop_init)
qed

lemma fullDoc_lines:
  "scanAll fullDoc = Inr [''intro'', ''## t'', [], ''s'', ''### Synopsis'', [bq, bq, bq] @ ''sh'',
     ''x'' @ [bq] @ ''y'']"
  by (simp add: fullDoc_def eval_scan bq_def)

theorem parse_full_witness:
  "parse id True ''t.md'' fullDoc =
      Inr \<lparr>Name = ''T'', Short = ''s'',
            Long = ''intro'' @ [nl] @ ''### Synopsis'' @ [nl, tab] @ ''x'' @ bqEscape @ ''y'',
            Examples = []\<rparr>"
  using parse_full [OF fullDoc_lines, of id "''t.md''"]
  by (simp add: eval_lines eval_name)

lemma fenceDoc_lines: "scanAll fenceDoc = Inr [''## t'', ''s'', [bq, bq, bq], ''x'']"
  by (simp add: fenceDoc_def eval_scan bq_def)

lemma fenceDoc_loop:
  "loop True init [''## t'', ''s'', [bq, bq, bq], ''x''] =
    \<lparr>short = ''s'', isLong = False, isExample = False, isIndent = True,
     long = [[tab, CHR ''x'']], examples = []\<rparr>"
  by (simp add: loop.simps init_def body_def eval_lines ReplaceAll_def)

text \<open>
  C2 as stated fails: in full mode a fence line after the short description is not
  appended to the long description, and the line after it is changed by a tab.
\<close>

theorem full_long_counterexample:
  "Long (projr (parse id True ''t.md'' fenceDoc)) = [tab, CHR ''x''] \<and>
   Long (projr (parse id True ''t.md'' fenceDoc)) \<noteq> Join [''s'', [bq, bq, bq], ''x''] [nl] \<and>
   Long (projr (parse id True ''t.md'' fenceDoc)) \<noteq> Join [[bq, bq, bq], ''x''] [nl]"
  by (simp add: parse_def fenceDoc_lines fenceDoc_loop)

lemma mainLines_split:
  assumes "\<forall>l\<in>set pre. \<not> isHeader l" "isHeader h" "\<forall>b\<in>set blanks. isBlank b" "\<not> isBlank s"
  shows "mainLines (pre @ h # blanks @ s # rest) = pre @ rest"
    and "shortOf (pre @ h # blanks @ s # rest) = s"
proof -
  have t: "takeWhile (\<lambda>l. \<not> isHeader l) (pre @ h # blanks @ s # rest) = pre"
    using assms(1,2) by (simp add: takeWhile_append2)
  have d: "dropWhile (\<lambda>l. \<not> isHeader l) (pre @ h # blanks @ s # rest) = h # blanks @ s # rest"
    using assms(1,2) by (simp add: dropWhile_append2)
  have b: "dropWhile isBlank (blanks @ s # rest) = s # rest"
    using assms(3,4) by (simp add: dropWhile_append2)
  show "mainLines (pre @ h # blanks @ s # rest) = pre @ rest"
    by (simp only: mainLines_def t d b list.case list.sel)
  show "shortOf (pre @ h # blanks @ s # rest) = s"
    by (simp only: shortOf_def d b list.case)
qed

section \<open>The short description (C9)\<close>

text \<open>
  C9.  When the first header line is followed by blank lines and then a line that is
  not blank, that line is the short description as it stands, without escaping and
  without a tab, whatever it starts with; the other fields are what the loop body makes
  of the lines before the header and after the captured line, so the captured line is
  never seen as a heading or a fence.
\<close>

theorem short_verbatim:
  assumes "scanAll v = Inr (pre @ h # blanks @ s # rest)"
    and "\<forall>l\<in>set pre. \<not> isHeader l" and "isHeader h"
    and "\<forall>b\<in>set blanks. isBlank b" and "\<not> isBlank s"
  shows "parse tu full name v =
      Inr \<lparr>Name = docName tu name, Short = s,
            Long = Join (long (bodies full init (pre @ rest))) [nl],
            Examples = Join (examples (bodies full init (pre @ rest))) [nl]\<rparr>"
  using assms(1) mainLines_split [OF assms(2-5), of rest]
  by (simp add: parse_def loop_init)

lemma headingDoc_lines:
  "scanAll headingDoc = Inr ([] @ ''## t'' # [[]] @ (''### Synopsis '' @ [bq] @ ''q'' @ [bq]) # [''more''])"
  by (simp add: headingDoc_def eval_scan bq_def)

theorem short_verbatim_witness:
  "parse id False ''t.md'' headingDoc =
      Inr \<lparr>Name = ''T'', Short = ''### Synopsis '' @ [bq] @ ''q'' @ [bq], Long = [], Examples = []\<rparr>"
  using short_verbatim [OF headingDoc_lines, of id False "''t.md''"]
  by (simp add: bodies_def body_def init_def eval_lines eval_name)

lemma loadDocs_map:
  "loadDocs tu sys full src fs = Inr ds \<Longrightarrow>
    ds = map (\<lambda>f. projr (parse tu full f (projr (readFile sys (joinPath sys src f)))))
           (filter (\<lambda>f. Ext f = ''.md'') fs)"
  by (induction fs arbitrary: ds) (auto split: sum.splits if_splits)

section \<open>Code fences (C7)\<close>

lemma heading_prefix:
  "HasPrefix l ''### Synopsis'' \<Longrightarrow> HasPrefix l ''### ''"
  "HasPrefix l ''### Examples'' \<Longrightarrow> HasPrefix l ''### ''"
  by (auto simp: HasPrefix_def prefix_def)

lemma fence_no_heading: "isFence l \<Longrightarrow> \<not> HasPrefix l ''### ''"
  by (auto simp: isFence_def HasPrefix_def prefix_def bq_def)

lemma body_heading:
  "\<not> full \<Longrightarrow> HasPrefix l ''### '' \<Longrightarrow>
    secOf (body full l st) = heading l \<and> isIndent (body full l st) = isIndent st \<and>
    long (body full l st) = long st \<and> examples (body full l st) = examples st"
  by (auto simp: body_def secOf_def heading_def)

lemma body_fence:
  "isFence l \<Longrightarrow> body full l st = st\<lparr>isIndent := \<not> isIndent st\<rparr>"
  using fence_no_heading [of l] heading_prefix [of l]
  by (auto simp: body_def isFence_def)

lemma body_append:
  assumes "full \<or> \<not> HasPrefix l ''### ''" "\<not> isFence l"
  shows "secOf (body full l st) = secOf st \<and> isIndent (body full l st) = isIndent st \<and>
    long (body full l st) =
      long st @ fieldLines CollectingLong
        [(if full then CollectingLong else secOf st, if isIndent st then tab # escape l else escape l)] \<and>
    examples (body full l st) =
      examples st @ fieldLines CollectingExamples
        [(if full then CollectingLong else secOf st, if isIndent st then tab # escape l else escape l)]"
  using assms heading_prefix [of l]
  by (auto simp: body_def isFence_def secOf_def fieldLines_def ReplaceAll_escape Let_def)

lemma fieldLines_Cons: "fieldLines s (x # xs) = fieldLines s [x] @ fieldLines s xs"
  by (simp add: fieldLines_def)

lemma bodies_collect:
  "long (bodies full st ls) =
     long st @ fieldLines CollectingLong (collect full (secOf st) (isIndent st) ls) \<and>
   examples (bodies full st ls) =
     examples st @ fieldLines CollectingExamples (collect full (secOf st) (isIndent st) ls)"
proof (induction ls arbitrary: st)
  case Nil
  show ?case by (simp add: bodies_Nil fieldLines_def)
next
  case (Cons l ls)
  note IH = Cons.IH [of "body full l st"]
  show ?case
  proof (cases "\<not> full \<and> HasPrefix l ''### ''")
    case True
    then show ?thesis using IH body_heading [of full l st] by (simp add: bodies_Cons)
  next
    case nh: False
    show ?thesis
    proof (cases "isFence l")
      case True
      then show ?thesis using IH fence_no_heading [OF True]
        by (simp add: bodies_Cons body_fence secOf_def)
    next
      case False
      have a: "full \<or> \<not> HasPrefix l ''### ''" using nh by blast
      note b = body_append [OF a False, of st]
      have c: "collect full (secOf st) (isIndent st) (l # ls) =
          (if full then CollectingLong else secOf st,
           if isIndent st then tab # escape l else escape l) #
          collect full (secOf st) (isIndent st) ls"
        using a False by auto
      show ?thesis
        unfolding bodies_Cons c
        by (subst (1 2) fieldLines_Cons) (simp only: IH b append_assoc)
    qed
  qed
qed

text \<open>
  C7, as the code has it.  The long description and the examples of a parsed document are
  the lines that the state machine \<open>collect\<close> appends, started with no section and
  outside a code block, from the lines that the loop body sees (the lines not consumed by
  the capture of the short description): among these every line starting with three
  backticks toggles the code block and is appended to no field, and every line appended
  inside a code block has exactly one tab before its escaped text.  The documents of a
  run are the parses of the single files, each from its own contents, so an open fence
  does not reach the next document.
\<close>

theorem fence_toggle:
  assumes "scanAll v = Inr ls"
  shows "parse tu full name v =
      Inr \<lparr>Name = docName tu name, Short = shortOf ls,
            Long = Join (fieldLines CollectingLong (collect full Idle False (mainLines ls))) [nl],
            Examples =
              Join (fieldLines CollectingExamples (collect full Idle False (mainLines ls))) [nl]\<rparr>
    \<and> (loadDocs tu sys full src fs = Inr ds \<longrightarrow>
        ds = map (\<lambda>f. projr (parse tu full f (projr (readFile sys (joinPath sys src f)))))
               (filter (\<lambda>f. Ext f = ''.md'') fs))"
proof -
  have "secOf init = Idle" "isIndent init = False" "long init = []" "examples init = []"
    by (simp_all add: secOf_def init_def)
  with bodies_collect [of full init "mainLines ls"]
  have "long (bodies full init (mainLines ls)) =
      fieldLines CollectingLong (collect full Idle False (mainLines ls))"
    and "examples (bodies full init (mainLines ls)) =
      fieldLines CollectingExamples (collect full Idle False (mainLines ls))"
    by simp_all
  then show ?thesis using assms loadDocs_map [of tu sys full src fs ds]
    by (simp add: parse_def loop_init)
qed

lemma fencedDoc_lines:
  "scanAll fencedDoc =
    Inr [''## t'', ''s'', ''### Synopsis'', [bq, bq, bq, CHR ''s'', CHR ''h''], ''x'', [bq, bq, bq],
         ''y'', ''### Examples'', [bq, bq, bq], ''z'']"
  by (simp add: fencedDoc_def eval_scan bq_def)

lemmas eval_collect = fieldLines_def heading_def eval_lines

theorem fence_toggle_witness:
  "parse id False ''t.md'' fencedDoc =
      Inr \<lparr>Name = ''T'', Short = ''s'', Long = [tab, CHR ''x'', nl, CHR ''y''],
            Examples = [tab, CHR ''z'']\<rparr> \<and>
   loadDocs id (demoOs [''a.md'', ''b.md''] fencedDoc) False ''src'' [''a.md'', ''b.md''] =
      Inr [\<lparr>Name = ''A'', Short = ''s'', Long = [tab, CHR ''x'', nl, CHR ''y''],
             Examples = [tab, CHR ''z'']\<rparr>,
           \<lparr>Name = ''B'', Short = ''s'', Long = [tab, CHR ''x'', nl, CHR ''y''],
             Examples = [tab, CHR ''z'']\<rparr>]"
proof -
  have p: "parse id False n fencedDoc =
      Inr \<lparr>Name = docName id n, Short = ''s'', Long = [tab, CHR ''x'', nl, CHR ''y''],
            Examples = [tab, CHR ''z'']\<rparr>" for n
    using fence_toggle [OF fencedDoc_lines, of id False n]
    by (simp add: eval_collect)
  have l: "loadDocs id (demoOs [''a.md'', ''b.md''] fencedDoc) False ''src'' [''a.md'', ''b.md''] =
      Inr [projr (parse id False ''a.md'' fencedDoc), projr (parse id False ''b.md'' fencedDoc)]"
    by (simp add: p Ext_def demoOs_def)
  show ?thesis using p [of "''t.md''"] l
    by (simp add: p eval_name)
qed

lemma shortFenceDoc_lines: "scanAll shortFenceDoc = Inr [''## t'', [bq, bq, bq], ''x'']"
  by (simp add: shortFenceDoc_def eval_scan bq_def)

lemma shortFenceDoc_loop:
  "loop True init [''## t'', [bq, bq, bq], ''x''] =
    \<lparr>short = [bq, bq, bq], isLong = False, isExample = False, isIndent = False,
     long = [''x''], examples = []\<rparr>"
  by (simp add: loop.simps init_def body_def eval_lines ReplaceAll_def)

text \<open>
  C7 as stated fails: a line of three backticks right after the header is stored as the
  short description, it does not toggle the flag, and the next line gets no tab.
\<close>

theorem fence_as_short_counterexample:
  "parse id True ''t.md'' shortFenceDoc =
    Inr \<lparr>Name = ''T'', Short = [bq, bq, bq], Long = ''x'', Examples = []\<rparr>"
  by (simp add: parse_def shortFenceDoc_lines shortFenceDoc_loop eval_name)

lemma backtickDoc_lines:
  "scanAll backtickDoc =
    Inr [''## t'', [CHR ''a'', bq, CHR ''b''], ''### Synopsis'', [CHR ''a'', bq, CHR ''b'']]"
  by (simp add: backtickDoc_def eval_scan bq_def)

lemma backtickDoc_loop:
  "loop False init
     [''## t'', [CHR ''a'', bq, CHR ''b''], ''### Synopsis'', [CHR ''a'', bq, CHR ''b'']] =
    \<lparr>short = [CHR ''a'', bq, CHR ''b''], isLong = True, isExample = False, isIndent = False,
     long = [CHR ''a'' # bqEscape @ ''b''], examples = []\<rparr>"
  by (simp add: loop.simps init_def body_def eval_lines ReplaceAll_def)

section \<open>Escaping of backticks (C5)\<close>

text \<open>
  C5 at a failing input.  The same line with a backtick is captured as short description
  and appended to the long description: the long description has the backtick escaped,
  the short description has not, and its declaration ends the raw string at that
  backtick.
\<close>

theorem short_backtick_not_escaped:
  "parse id False ''t.md'' backtickDoc =
    Inr \<lparr>Name = ''T'', Short = ''a'' @ [bq] @ ''b'', Long = ''a'' @ bqEscape @ ''b'',
          Examples = []\<rparr> \<and>
   String \<lparr>Name = ''T'', Short = ''a'' @ [bq] @ ''b'', Long = ''a'' @ bqEscape @ ''b'',
          Examples = []\<rparr> =
     ''var TShort='' @ [bq] @ ''a'' @ [bq] @ ''b'' @ [bq, nl] @
     ''var TLong='' @ [bq] @ ''a'' @ bqEscape @ ''b'' @ [bq, nl]"
  by (simp add: parse_def backtickDoc_lines backtickDoc_loop eval_name String_def parts_def decl_def)

section \<open>The name of a document (C4)\<close>

lemma extFrom_suffix: "suffix (extFrom acc r) (rev r @ acc)"
proof (induction r arbitrary: acc)
  case Nil
  show ?case by simp
next
  case (Cons c cs)
  have "suffix (x # acc) (rev cs @ x # acc)" for x by (simp add: suffix_def)
  moreover have "suffix (extFrom (c # acc) cs) (rev cs @ c # acc)" by (rule Cons.IH)
  ultimately show ?case by simp
qed

lemma Ext_suffix: "suffix (Ext name) name"
  using extFrom_suffix [of "[]" "rev name"] by (simp add: Ext_def)

lemma replaceFrom_strip:
  assumes "e \<noteq> []" "\<not> sublist e (butlast (base @ e))"
  shows "replaceFrom e [] (base @ e) = base"
  using assms
proof (induction base)
  case Nil
  then obtain c cs where e: "e = c # cs" by (cases e) auto
  have "replaceFrom e [] (c # cs) = [] @ replaceFrom e [] (drop (length e) (c # cs))"
    using e by (subst replaceFrom.simps) simp
  then show ?case using e by simp
next
  case (Cons c base)
  have bl: "butlast ((c # base) @ e) = c # butlast (base @ e)"
    using Cons.prems(1) by simp
  have "\<not> prefix e ((c # base) @ e)"
  proof
    assume "prefix e ((c # base) @ e)"
    then obtain zs where z: "(c # base) @ e = e @ zs" by (auto simp: prefix_def)
    then have "length zs = Suc (length base)" by (metis length_append length_Cons add.commute add_left_cancel)
    then have "zs \<noteq> []" by auto
    then have "butlast (e @ zs) = e @ butlast zs" by (simp add: butlast_append)
    with z have "sublist e (butlast ((c # base) @ e))" by simp
    with Cons.prems(2) show False by simp
  qed
  then have step: "replaceFrom e [] ((c # base) @ e) = c # replaceFrom e [] (base @ e)"
    by simp
  have "\<not> sublist e (butlast (base @ e))"
    using Cons.prems(2) bl by (simp add: sublist_Cons_right)
  with Cons.IH Cons.prems(1) step show ?case by simp
qed

lemma ReplaceAll_Ext:
  assumes "Ext name = [] \<or> \<not> sublist (Ext name) (butlast name)"
  shows "ReplaceAll name (Ext name) [] = stripExt name"
proof (cases "Ext name = []")
  case True
  then show ?thesis by (simp add: ReplaceAll_def stripExt_def)
next
  case False
  obtain base where b: "name = base @ Ext name" using Ext_suffix [of name] by (auto simp: suffix_def)
  have "replaceFrom (Ext name) [] (base @ Ext name) = base"
    using False assms b by (intro replaceFrom_strip) auto
  moreover have "stripExt name = base"
    unfolding stripExt_def by (subst (1 2) b) simp
  ultimately show ?thesis using False b by (simp add: ReplaceAll_def)
qed

lemma replaceFrom_char: "replaceFrom [c] [] s = filter (\<lambda>x. x \<noteq> c) s"
  by (induction s) simp_all

lemma ReplaceAll_hyphen: "ReplaceAll s ''-'' [] = filter (\<lambda>c. c \<noteq> CHR ''-'') s"
  by (simp add: ReplaceAll_def replaceFrom_char)

lemma titleAscii_index:
  "titleAscii p s =
    map (\<lambda>i. if isSeparator (if i = 0 then p else s ! (i - 1)) then ToTitle (s ! i) else s ! i)
      [0 ..< length s]"
proof (induction s arbitrary: p)
  case Nil
  show ?case by simp
next
  case (Cons c cs)
  have "[0 ..< length (c # cs)] = 0 # map Suc [0 ..< length cs]"
    by (simp add: upt_conv_Cons map_Suc_upt del: upt_Suc)
  then show ?case
    by (simp add: Cons.IH comp_def nth_Cons' del: upt_Suc cong: map_cong)
qed

lemma titleAscii_capAfter: "titleAscii (CHR '' '') s = capAfter isSeparator s"
  unfolding titleAscii_index capAfter_def
  by (rule map_cong) (auto simp: isSeparator_def isDigit_def isLower_def isUpper_def)

lemma parse_Name: "parse tu full name v = Inr d \<Longrightarrow> Name d = docName tu name"
  by (auto simp: parse_def Let_def split: sum.splits)

lemmas eval_spec = specName_def stripExt_def capAfter_def isWhite_def Ext_def isSeparator_def
  isLower_def isUpper_def isDigit_def isAscii_def ToTitle_Char sublist_code

text \<open>
  C4, as the code has it.  The name of a parsed document is the value of \<open>docName\<close> at
  the file name, so it is the same for every content and in both modes.  For an ASCII
  file name whose extension text occurs nowhere but at its end, it is the file name
  without the extension, where the first character and every character after a character
  that is not an ASCII letter, digit or underscore (a hyphen or a dot, for example) is
  mapped to upper case if it is a lower-case letter, and the hyphens are removed
  afterwards.
\<close>

theorem name_derivation:
  assumes "parse tu full name v = Inr d"
  shows "Name d = docName tu name
    \<and> (\<forall>full' v' d'. parse tu full' name v' = Inr d' \<longrightarrow> Name d' = Name d)
    \<and> (list_all isAscii name \<and> (Ext name = [] \<or> \<not> sublist (Ext name) (butlast name)) \<longrightarrow>
         Name d = filter (\<lambda>c. c \<noteq> CHR ''-'') (capAfter isSeparator (stripExt name)))"
proof -
  have n: "Name d = docName tu name" using assms by (rule parse_Name)
  have det: "\<forall>full' v' d'. parse tu full' name v' = Inr d' \<longrightarrow> Name d' = Name d"
    using n parse_Name by simp
  have shape: "list_all isAscii name \<and> (Ext name = [] \<or> \<not> sublist (Ext name) (butlast name)) \<longrightarrow>
         Name d = filter (\<lambda>c. c \<noteq> CHR ''-'') (capAfter isSeparator (stripExt name))"
  proof
    assume h: "list_all isAscii name \<and> (Ext name = [] \<or> \<not> sublist (Ext name) (butlast name))"
    then have "list_all isAscii (stripExt name)"
      by (auto simp: stripExt_def list_all_iff dest: in_set_takeD)
    then have "Title tu (stripExt name) = capAfter isSeparator (stripExt name)"
      by (simp add: Title_def titleAscii_capAfter)
    then show "Name d = filter (\<lambda>c. c \<noteq> CHR ''-'') (capAfter isSeparator (stripExt name))"
      using n h by (simp add: docName_def ReplaceAll_Ext ReplaceAll_hyphen)
  qed
  show ?thesis by (rule conjI [OF n conjI [OF det shape]])
qed

theorem name_derivation_witness:
  "Name (projr (parse id False ''my-cmd.md'' [])) = ''MyCmd'' \<and>
   Name (projr (parse id True ''edit.md'' [])) = ''Edit'' \<and>
   Name (projr (parse id False ''my-cmd-name.md'' [])) = ''MyCmdName'' \<and>
   Name (projr (parse id True ''my-cmd.md'' editBody)) = ''MyCmd'' \<and>
   Name (projr (parse id False ''a.md.md'' [])) = ''A''"
proof -
  have e: "parse id True ''my-cmd.md'' editBody = Inr (projr (parse id True ''my-cmd.md'' editBody))"
    by (simp add: parse_def edit_lines Let_def)
  show ?thesis
    using name_derivation [of id False "''my-cmd.md''" "[]" "projr (parse id False ''my-cmd.md'' [])"]
      name_derivation [of id True "''edit.md''" "[]" "projr (parse id True ''edit.md'' [])"]
      name_derivation [of id False "''my-cmd-name.md''" "[]"
        "projr (parse id False ''my-cmd-name.md'' [])"]
      name_derivation [of id False "''a.md.md''" "[]" "projr (parse id False ''a.md.md'' [])"]
      name_derivation [OF e]
    by (simp add: parse_empty eval_spec eval_name)
qed

text \<open>
  C4 as stated fails: with words separated by white space only, the description gives
  \<open>Mycmd\<close> and \<open>A.b\<close> where the code gives \<open>MyCmd\<close> and \<open>A.B\<close>.
\<close>

theorem name_whitespace_counterexample:
  "Name (projr (parse id False ''my-cmd.md'' [])) = ''MyCmd'' \<and>
   specName ''my-cmd.md'' = ''Mycmd'' \<and>
   Name (projr (parse id False ''a.b.md'' [])) = ''A.B'' \<and>
   specName ''a.b.md'' = ''A.b''"
  by (simp add: parse_empty eval_name eval_spec)

end
